theory Spec2Isabelle
  imports Complex_Main "HOL-Library.Log_Nat"
begin

section \<open>The currency engine of \<^verbatim>\<open>Lesson 2/Task-1.ts\<close>\<close>

text \<open>
  The second half of \<^verbatim>\<open>Task-1.ts\<close> (lines 100 to 328) is a fixed-point money class:
  a value is stored as a scaled integer \<^verbatim>\<open>intValue\<close> together with its display value
  \<^verbatim>\<open>value = intValue / 10^precision\<close>, and every operation goes through the function
  \<^verbatim>\<open>parse\<close>. All of it computes with JavaScript numbers, that is IEEE 754 binary64
  values, and with strings (\<^verbatim>\<open>toFixed\<close>, \<^verbatim>\<open>Number(...)\<close>, regular-expression
  replacement). The embedding below follows the source function by function.
\<close>

subsection \<open>JavaScript numbers\<close>

text \<open>
  A number is a finite binary64 value, one of the two infinities, or NaN. A finite value is
  represented by the rational it denotes. The two zeros are identified: the only place of
  this program where \<^verbatim>\<open>-0\<close> can be told from \<^verbatim>\<open>+0\<close> is the sign of the infinity
  produced by a division by zero.
\<close>

datatype jsnum = Fin rat | PInf | NInf | NaN

text \<open>\<open>ilog2 x\<close> is the binary exponent of a non-zero rational: \<open>2^e \<le> |x| < 2^(e+1)\<close>.\<close>

definition ilog2 :: "rat \<Rightarrow> int" where
  "ilog2 x = (if 1 \<le> \<bar>x\<bar> then bitlen \<lfloor>\<bar>x\<bar>\<rfloor> - 1
              else - bitlen (\<lceil>1 / \<bar>x\<bar>\<rceil> - 1))"

definition round_half_even :: "rat \<Rightarrow> int" where
  "round_half_even y = (let f = \<lfloor>y\<rfloor>; r = y - of_int f in
     if r < 1 / 2 then f else if 1 / 2 < r then f + 1 else if even f then f else f + 1)"

text \<open>
  \<open>fl\<close> rounds an exact result to binary64, to nearest with ties to even: 53 significant
  bits, least exponent \<open>-1074\<close> (subnormal numbers), overflow to an infinity.
\<close>

definition fl :: "rat \<Rightarrow> jsnum" where
  "fl x = (if x = 0 then Fin 0 else
     let q = max (ilog2 x - 52) (- 1074);
         r = of_int (round_half_even (x / 2 powi q)) * 2 powi q
     in if 2 ^ 1024 \<le> \<bar>r\<bar> then (if 0 < x then PInf else NInf) else Fin r)"

fun js_neg :: "jsnum \<Rightarrow> jsnum" where
  "js_neg (Fin a) = Fin (- a)"
| "js_neg PInf = NInf"
| "js_neg NInf = PInf"
| "js_neg NaN = NaN"


fun js_add :: "jsnum \<Rightarrow> jsnum \<Rightarrow> jsnum" where
  "js_add NaN y = NaN"
| "js_add x NaN = NaN"
| "js_add (Fin a) (Fin b) = fl (a + b)"
| "js_add PInf NInf = NaN"
| "js_add NInf PInf = NaN"
| "js_add (Fin a) y = y"
| "js_add x y = x"

definition js_sub :: "jsnum \<Rightarrow> jsnum \<Rightarrow> jsnum" where
  "js_sub x y = js_add x (js_neg y)"

fun js_mul :: "jsnum \<Rightarrow> jsnum \<Rightarrow> jsnum" where
  "js_mul NaN y = NaN"
| "js_mul x NaN = NaN"
| "js_mul (Fin a) (Fin b) = fl (a * b)"
| "js_mul (Fin a) y = (if a = 0 then NaN else if 0 < a then y else js_neg y)"
| "js_mul x (Fin b) = (if b = 0 then NaN else if 0 < b then x else js_neg x)"
| "js_mul x y = (if x = y then PInf else NInf)"

fun js_div :: "jsnum \<Rightarrow> jsnum \<Rightarrow> jsnum" where
  "js_div NaN y = NaN"
| "js_div x NaN = NaN"
| "js_div (Fin a) (Fin b) =
     (if b = 0 then (if a = 0 then NaN else if 0 < a then PInf else NInf) else fl (a / b))"
| "js_div (Fin a) y = Fin 0"
| "js_div x (Fin b) = (if 0 \<le> b then x else js_neg x)"
| "js_div x y = NaN"

text \<open>The remainder \<^verbatim>\<open>%\<close> has the sign of the dividend and is exact.\<close>

definition trunc :: "rat \<Rightarrow> int" where
  "trunc x = (if 0 \<le> x then \<lfloor>x\<rfloor> else \<lceil>x\<rceil>)"

fun js_mod :: "jsnum \<Rightarrow> jsnum \<Rightarrow> jsnum" where
  "js_mod (Fin a) (Fin b) = (if b = 0 then NaN else Fin (a - b * of_int (trunc (a / b))))"
| "js_mod (Fin a) PInf = Fin a"
| "js_mod (Fin a) NInf = Fin a"
| "js_mod x y = NaN"

text \<open>Comparison: \<^verbatim>\<open>x < y\<close>, false when either side is NaN; \<^verbatim>\<open>x >= y\<close> likewise.\<close>

fun js_lt :: "jsnum \<Rightarrow> jsnum \<Rightarrow> bool" where
  "js_lt NaN y = False"
| "js_lt x NaN = False"
| "js_lt (Fin a) (Fin b) = (a < b)"
| "js_lt x PInf = (x \<noteq> PInf)"
| "js_lt NInf y = (y \<noteq> NInf)"
| "js_lt x y = False"


definition js_ge :: "jsnum \<Rightarrow> jsnum \<Rightarrow> bool" where
  "js_ge x y = (x \<noteq> NaN \<and> y \<noteq> NaN \<and> \<not> js_lt x y)"

text \<open>Truthiness of a number, as in \<^verbatim>\<open>v || 0\<close>: zero and NaN are falsy.\<close>

fun truthy :: "jsnum \<Rightarrow> bool" where
  "truthy (Fin a) = (a \<noteq> 0)"
| "truthy NaN = False"
| "truthy x = True"



fun js_round :: "jsnum \<Rightarrow> jsnum" where
  "js_round (Fin a) = Fin (of_int \<lfloor>a + 1 / 2\<rfloor>)"
| "js_round x = x"

text \<open>\<^verbatim>\<open>~~x\<close>: conversion to a signed 32-bit integer (truncate, wrap modulo \<open>2^32\<close>).\<close>

fun to_int32 :: "jsnum \<Rightarrow> int" where
  "to_int32 (Fin a) = (let m = trunc a mod 2 ^ 32 in if 2 ^ 31 \<le> m then m - 2 ^ 32 else m)"
| "to_int32 x = 0"

text \<open>
  \<^verbatim>\<open>pow = (p) => Math.pow(10, p)\<close>. The precision is taken to be an integer, and the
  power to be correctly rounded (it is exact from \<open>10^0\<close> to \<open>10^22\<close>).
\<close>

definition pow :: "int \<Rightarrow> jsnum" where
  "pow p = fl (10 powi p)"

text \<open>\<^verbatim>\<open>rounding = (value, increment) => round(value / increment) * increment\<close>\<close>

definition rounding :: "jsnum \<Rightarrow> jsnum \<Rightarrow> jsnum" where
  "rounding v i = js_mul (js_round (js_div v i)) i"

subsection \<open>Strings and numbers\<close>

text \<open>
  Strings are lists of 8-bit characters: the model covers JavaScript strings whose code
  units are below 256.
\<close>

definition is_digit :: "char \<Rightarrow> bool" where
  "is_digit c = (c \<in> set ''0123456789'')"

definition digit_val :: "char \<Rightarrow> nat" where
  "digit_val c = of_char c - 48"

definition digit_char :: "nat \<Rightarrow> char" where
  "digit_char n = ''0123456789'' ! n"

fun digits_val :: "string \<Rightarrow> nat" where
  "digits_val [] = 0"
| "digits_val (c # cs) = digit_val c * 10 ^ length cs + digits_val cs"

function digits :: "nat \<Rightarrow> string" where
  "digits n = (if n < 10 then [digit_char n] else digits (n div 10) @ [digit_char (n mod 10)])"
  by pat_completeness auto
termination
  by (relation "measure id") auto

declare digits.simps [simp del]

text \<open>
  \<^verbatim>\<open>Number.prototype.toString\<close> of a finite value of magnitude at least \<open>10^21\<close>: the
  shortest digit string \<open>s\<close> (of \<open>k\<close> digits) with \<open>s * 10^(n-k)\<close> rounding to the
  value, the closest such \<open>s\<close>, in exponent notation. \<open>shortest x n k j\<close> tries
  \<open>k, k+1, ...\<close> digits, \<open>j\<close> times; 17 digits always suffice.
\<close>

definition num_digits :: "nat \<Rightarrow> nat" where
  "num_digits n = length (digits n)"

fun shortest :: "rat \<Rightarrow> nat \<Rightarrow> nat \<Rightarrow> nat \<Rightarrow> nat \<times> nat" where
  "shortest x n k 0 = (nat \<lfloor>x\<rfloor>, n)"
| "shortest x n k (Suc j) =
     (let u = 10 ^ (n - k);
          lo = nat \<lfloor>x / of_nat u\<rfloor>;
          hi = lo + 1;
          ok_lo = (fl (of_nat (lo * u)) = Fin x);
          ok_hi = (fl (of_nat (hi * u)) = Fin x);
          d_lo = x - of_nat (lo * u);
          d_hi = of_nat (hi * u) - x;
          pick_hi = (if ok_hi then (if ok_lo then d_hi < d_lo \<or> (d_hi = d_lo \<and> even hi)
                                    else True)
                     else False)
      in if pick_hi then (if hi = 10 ^ k then (10 ^ (k - 1), n + 1) else (hi, n))
         else if ok_lo then (lo, n)
         else shortest x n (k + 1) j)"

definition exp_string :: "rat \<Rightarrow> string" where
  "exp_string x =
     (let n = num_digits (nat \<lfloor>x\<rfloor>);
          (s, n') = shortest x n 1 17;
          k = num_digits s;
          ds = take k (digits s)
      in (if k = 1 then ds else hd ds # CHR ''.'' # tl ds) @ ''e+'' @ digits (n' - 1))"

text \<open>
  \<^verbatim>\<open>x.toFixed(f)\<close> for \<open>0 \<le> f \<le> 100\<close>: the integer \<open>n\<close> closest to \<open>|x| * 10^f\<close>,
  the larger one at a tie, written with \<open>f\<close> fractional digits and the sign of \<open>x\<close>.
\<close>

definition fixed_digits :: "nat \<Rightarrow> rat \<Rightarrow> string" where
  "fixed_digits f a =
     (let n = nat \<lfloor>a * 10 ^ f + 1 / 2\<rfloor>;
          m = digits n;
          m' = replicate (f + 1 - length m) CHR ''0'' @ m
      in if f = 0 then m
         else take (length m' - f) m' @ CHR ''.'' # drop (length m' - f) m')"

fun toFixed_string :: "nat \<Rightarrow> jsnum \<Rightarrow> string" where
  "toFixed_string f NaN = ''NaN''"
| "toFixed_string f PInf = ''Infinity''"
| "toFixed_string f NInf = ''-Infinity''"
| "toFixed_string f (Fin a) =
     (if a < 0 then ''-'' else []) @
     (if 10 ^ 21 \<le> \<bar>a\<bar> then exp_string \<bar>a\<bar> else fixed_digits f \<bar>a\<bar>)"

declare toFixed_string.simps [simp del]

datatype error = InvalidInput | TypeError | RangeError

definition toFixed :: "int \<Rightarrow> jsnum \<Rightarrow> error + string" where
  "toFixed f x = (if f < 0 \<or> 100 < f then Inl RangeError else Inr (toFixed_string (nat f) x))"


text \<open>
  \<^verbatim>\<open>Number(s)\<close> of a string: surrounding white space is dropped; the empty string is 0;
  \<^verbatim>\<open>0x\<close>, \<^verbatim>\<open>0o\<close>, \<^verbatim>\<open>0b\<close> literals; an optional sign followed by \<^verbatim>\<open>Infinity\<close> or
  by a decimal literal with optional fraction and exponent; anything else is NaN. The
  value of a literal is rounded to the nearest binary64 number.
\<close>

definition is_space :: "char \<Rightarrow> bool" where
  "is_space c = (of_char c \<in> {9, 10, 11, 12, 13, 32, 160 :: nat})"

definition trim :: "string \<Rightarrow> string" where
  "trim s = dropWhile is_space (rev (dropWhile is_space (rev s)))"

definition radix_digit :: "nat \<Rightarrow> char \<Rightarrow> nat option" where
  "radix_digit b c =
     (let n = of_char c;
          v = (if 48 \<le> n \<and> n \<le> 57 then n - 48
               else if 97 \<le> n \<and> n \<le> 102 then n - 87
               else if 65 \<le> n \<and> n \<le> 70 then n - 55 else 16)
      in if v < b then Some v else None)"

fun radix_val :: "nat \<Rightarrow> nat \<Rightarrow> string \<Rightarrow> nat option" where
  "radix_val b acc [] = Some acc"
| "radix_val b acc (c # cs) =
     (case radix_digit b c of None \<Rightarrow> None | Some v \<Rightarrow> radix_val b (acc * b + v) cs)"

definition signed_integer :: "string \<Rightarrow> int option" where
  "signed_integer s =
     (let (neg, ds) = (case s of c # cs \<Rightarrow> if c = CHR ''-'' then (True, cs)
                                   else if c = CHR ''+'' then (False, cs) else (False, s)
                       | [] \<Rightarrow> (False, s))
      in if ds \<noteq> [] \<and> list_all is_digit ds
         then Some (if neg then - int (digits_val ds) else int (digits_val ds)) else None)"

definition unsigned_decimal :: "string \<Rightarrow> rat option" where
  "unsigned_decimal s =
     (let ip = takeWhile is_digit s;
          r1 = dropWhile is_digit s;
          dot = (r1 \<noteq> [] \<and> hd r1 = CHR ''.'');
          fp = (if dot then takeWhile is_digit (tl r1) else []);
          r2 = (if dot then dropWhile is_digit (tl r1) else r1);
          ex = (if r2 = [] then Some 0
                else if hd r2 = CHR ''e'' \<or> hd r2 = CHR ''E'' then signed_integer (tl r2)
                else None)
      in if ip = [] \<and> fp = [] then None
         else (case ex of None \<Rightarrow> None
               | Some e \<Rightarrow> Some (of_nat (digits_val (ip @ fp)) * 10 powi (e - int (length fp)))))"

definition decimal_literal :: "string \<Rightarrow> jsnum" where
  "decimal_literal s =
     (let (neg, u) = (case s of c # cs \<Rightarrow> if c = CHR ''-'' then (True, cs)
                                  else if c = CHR ''+'' then (False, cs) else (False, s)
                      | [] \<Rightarrow> (False, s))
      in if u = ''Infinity'' then (if neg then NInf else PInf)
         else (case unsigned_decimal u of None \<Rightarrow> NaN
               | Some v \<Rightarrow> fl (if neg then - v else v)))"

definition string_to_number :: "string \<Rightarrow> jsnum" where
  "string_to_number s =
     (let t = trim s in
      if t = [] then Fin 0
      else if length t > 2 \<and> hd t = CHR ''0'' \<and> t ! 1 \<in> set ''xXoObB''
      then (case radix_val (if t ! 1 \<in> set ''xX'' then 16 else if t ! 1 \<in> set ''oO'' then 8 else 2)
                     0 (drop 2 t) of
              None \<Rightarrow> NaN | Some v \<Rightarrow> fl (of_nat v))
      else decimal_literal t)"

subsection \<open>Settings and currency values\<close>

text \<open>
  \<^verbatim>\<open>IDefaults & IOpts\<close>: the eight fields of \<^verbatim>\<open>defaults\<close> and the three optional
  ones. \<open>groups\<close> is one of the two regular expressions of the source. \<open>opts\<close> is the
  object handed to the constructor: any subset of the fields (the constructor is called
  with a resolved settings object by every operation).
\<close>

datatype grouping = GroupRegex | VedicRegex

record settings =
  symbol :: string
  separator :: string
  decimal :: string
  formatWithSymbol :: bool
  errorOnInvalid :: bool
  precision :: int
  pattern :: string
  negativePattern :: string
  increment :: "jsnum option"
  useVedic :: "bool option"
  groups :: "grouping option"

record opts =
  o_symbol :: "string option"
  o_separator :: "string option"
  o_decimal :: "string option"
  o_formatWithSymbol :: "bool option"
  o_errorOnInvalid :: "bool option"
  o_precision :: "int option"
  o_pattern :: "string option"
  o_negativePattern :: "string option"
  o_increment :: "jsnum option"
  o_useVedic :: "bool option"
  o_groups :: "grouping option"

definition defaults :: settings where
  "defaults = \<lparr> symbol = ''$'', separator = '','', decimal = ''.'',
     formatWithSymbol = False, errorOnInvalid = False, precision = 2,
     pattern = ''!#'', negativePattern = ''-!#'',
     increment = None, useVedic = None, groups = None \<rparr>"

definition no_opts :: opts where
  "no_opts = \<lparr> o_symbol = None, o_separator = None, o_decimal = None,
     o_formatWithSymbol = None, o_errorOnInvalid = None, o_precision = None,
     o_pattern = None, o_negativePattern = None,
     o_increment = None, o_useVedic = None, o_groups = None \<rparr>"

text \<open>\<^verbatim>\<open>Object.assign({}, defaults, opts)\<close>: a field of \<open>opts\<close> that is present wins.\<close>

definition assign :: "settings \<Rightarrow> opts \<Rightarrow> settings" where
  "assign d o' = \<lparr>
     symbol = (case o_symbol o' of Some x \<Rightarrow> x | None \<Rightarrow> symbol d),
     separator = (case o_separator o' of Some x \<Rightarrow> x | None \<Rightarrow> separator d),
     decimal = (case o_decimal o' of Some x \<Rightarrow> x | None \<Rightarrow> decimal d),
     formatWithSymbol = (case o_formatWithSymbol o' of Some x \<Rightarrow> x | None \<Rightarrow> formatWithSymbol d),
     errorOnInvalid = (case o_errorOnInvalid o' of Some x \<Rightarrow> x | None \<Rightarrow> errorOnInvalid d),
     precision = (case o_precision o' of Some x \<Rightarrow> x | None \<Rightarrow> precision d),
     pattern = (case o_pattern o' of Some x \<Rightarrow> x | None \<Rightarrow> pattern d),
     negativePattern = (case o_negativePattern o' of Some x \<Rightarrow> x | None \<Rightarrow> negativePattern d),
     increment = (case o_increment o' of Some x \<Rightarrow> Some x | None \<Rightarrow> increment d),
     useVedic = (case o_useVedic o' of Some x \<Rightarrow> Some x | None \<Rightarrow> useVedic d),
     groups = (case o_groups o' of Some x \<Rightarrow> Some x | None \<Rightarrow> groups d) \<rparr>"

text \<open>A settings object used as the \<open>opts\<close> argument: all its own fields are present.\<close>

definition as_opts :: "settings \<Rightarrow> opts" where
  "as_opts s = \<lparr> o_symbol = Some (symbol s), o_separator = Some (separator s),
     o_decimal = Some (decimal s), o_formatWithSymbol = Some (formatWithSymbol s),
     o_errorOnInvalid = Some (errorOnInvalid s), o_precision = Some (precision s),
     o_pattern = Some (pattern s), o_negativePattern = Some (negativePattern s),
     o_increment = increment s, o_useVedic = useVedic s, o_groups = groups s \<rparr>"

text \<open>
  The fields of a \<^verbatim>\<open>Currency\<close> object: \<open>c_value\<close> is \<^verbatim>\<open>value\<close>, \<open>c_settings\<close> is
  \<^verbatim>\<open>_settings\<close>, \<open>c_precision\<close> is \<^verbatim>\<open>_precision\<close>, \<open>c_opts\<close> is \<^verbatim>\<open>opts\<close>. (The field
  \<^verbatim>\<open>settings\<close> of the class is declared and never assigned.)
\<close>

record currency =
  intValue :: jsnum
  c_value :: jsnum
  c_settings :: settings
  c_precision :: jsnum
  c_opts :: opts

text \<open>
  \<^verbatim>\<open>toString\<close> (lines 285 to 288). \<^verbatim>\<open>toFixed\<close> raises a RangeError when the precision
  is not between 0 and 100.
\<close>

definition toString :: "currency \<Rightarrow> error + string" where
  "toString c =
     toFixed (precision (c_settings c))
       (rounding (js_div (intValue c) (c_precision c))
          (case increment (c_settings c) of Some i \<Rightarrow> i | None \<Rightarrow> NaN))"

definition toJSON :: "currency \<Rightarrow> jsnum" where
  "toJSON c = c_value c"

text \<open>
  The values a caller can pass where the source expects
  \<^verbatim>\<open>number | string | Currency\<close>; \<open>VUndefined\<close>, \<open>VNull\<close> and \<open>VBool\<close> stand for the
  inputs that are none of the three.
\<close>

datatype jsval = VNum jsnum | VStr string | VCur currency | VUndefined | VNull | VBool bool

text \<open>
  Conversion of an operand to a number, as \<^verbatim>\<open>intValue *= number\<close> does it: a currency
  object is converted through its \<^verbatim>\<open>toString\<close>.
\<close>

fun to_number :: "jsval \<Rightarrow> error + jsnum" where
  "to_number (VNum n) = Inr n"
| "to_number (VStr s) = Inr (string_to_number s)"
| "to_number (VCur c) = (case toString c of Inl e \<Rightarrow> Inl e | Inr s \<Rightarrow> Inr (string_to_number s))"
| "to_number VUndefined = Inr NaN"
| "to_number VNull = Inr (Fin 0)"
| "to_number (VBool b) = Inr (Fin (if b then 1 else 0))"

subsection \<open>The parser\<close>

text \<open>
  \<^verbatim>\<open>.replace(/\((.*)\)/, '-$1')\<close>: the first \<^verbatim>\<open>(\<close> that has a \<^verbatim>\<open>)\<close> after it on the same
  line; the match runs to the last \<^verbatim>\<open>)\<close> of that line.
\<close>

definition line_terminator :: "char \<Rightarrow> bool" where
  "line_terminator c = (of_char c \<in> {10, 13 :: nat})"

definition last_index :: "char \<Rightarrow> string \<Rightarrow> nat" where
  "last_index c s = length s - 1 - length (takeWhile (\<lambda>d. d \<noteq> c) (rev s))"

fun replace_paren :: "string \<Rightarrow> string" where
  "replace_paren [] = []"
| "replace_paren (c # cs) =
     (let seg = takeWhile (\<lambda>d. \<not> line_terminator d) cs in
      if c = CHR ''('' \<and> CHR '')'' \<in> set seg
      then (let j = last_index CHR '')'' seg in CHR ''-'' # take j cs @ drop (Suc j) cs)
      else c # replace_paren cs)"

text \<open>
  \<^verbatim>\<open>.replace(new RegExp('[^-\\d' + decimal + ']', 'g'), '')\<close> and
  \<^verbatim>\<open>.replace(new RegExp('\\' + decimal, 'g'), '.')\<close>, with the decimal mark read
  literally. That is what the two expressions mean when the mark is one character that is
  neither a letter, a digit, a backslash nor a closing bracket (\<open>plain_mark\<close>).
\<close>

definition is_alnum :: "char \<Rightarrow> bool" where
  "is_alnum c = (let n = of_char c :: nat in
     (48 \<le> n \<and> n \<le> 57) \<or> (65 \<le> n \<and> n \<le> 90) \<or> (97 \<le> n \<and> n \<le> 122))"

definition plain_mark :: "string \<Rightarrow> bool" where
  "plain_mark d = (case d of [c] \<Rightarrow> \<not> is_alnum c \<and> c \<noteq> CHR 0x5C \<and> c \<noteq> CHR '']'' | _ \<Rightarrow> False)"

definition strip :: "string \<Rightarrow> string \<Rightarrow> string" where
  "strip d s = filter (\<lambda>c. c = CHR ''-'' \<or> is_digit c \<or> c \<in> set d) s"

fun replace_all :: "string \<Rightarrow> string \<Rightarrow> string \<Rightarrow> string" where
  "replace_all d r [] = []"
| "replace_all d r (c # cs) =
     (if d \<noteq> [] \<and> take (length d) (c # cs) = d
      then r @ replace_all d r (drop (length d) (c # cs))
      else c # replace_all d r cs)"

text \<open>
  The source reads \<^verbatim>\<open>this.value\<close>, not \<^verbatim>\<open>value.value\<close>, when the input is a currency
  object (line 307). \<^verbatim>\<open>parse\<close> is a plain function called without a receiver, so what
  \<^verbatim>\<open>this\<close> is depends on how the file is compiled: in strict code it is
  \<^verbatim>\<open>undefined\<close> and the property access raises a TypeError; in sloppy code it is the
  global object, which has no property \<^verbatim>\<open>value\<close> (none of the top-level declarations of
  the file is called so), and \<^verbatim>\<open>undefined * precision\<close> is NaN. The mode is a parameter.
\<close>

datatype js_mode = Strict | Sloppy

definition this_value :: "js_mode \<Rightarrow> error + jsval" where
  "this_value m = (case m of Strict \<Rightarrow> Inl TypeError | Sloppy \<Rightarrow> Inr VUndefined)"

text \<open>
  \<^verbatim>\<open>parse\<close> (lines 300 to 328), in its two steps: \<open>scaled\<close> is the value of \<^verbatim>\<open>v\<close>
  after the branches on the type of the input (lines 301 to 322), and \<open>parse\<close> ends with
  \<^verbatim>\<open>v = +v.toFixed(4); return useRounding ? round(v) : v\<close>.
\<close>

definition scaled :: "js_mode \<Rightarrow> jsval \<Rightarrow> settings \<Rightarrow> error + jsnum" where
  "scaled m value' opts =
     (let precision' = pow (precision opts) in
      case value' of
        VNum n \<Rightarrow> Inr (js_mul n precision')
      | VCur c \<Rightarrow>
          (case this_value m of Inl e \<Rightarrow> Inl e
           | Inr t \<Rightarrow> (case to_number t of Inl e \<Rightarrow> Inl e
                       | Inr n \<Rightarrow> Inr (js_mul n precision')))
      | VStr s \<Rightarrow>
          (let v = js_mul (string_to_number
                     (replace_all (decimal opts) ''.''
                        (strip (decimal opts) (replace_paren s)))) precision'
           in Inr (if truthy v then v else Fin 0))
      | _ \<Rightarrow> if errorOnInvalid opts then Inl InvalidInput else Inr (Fin 0))"

definition parse :: "js_mode \<Rightarrow> jsval \<Rightarrow> settings \<Rightarrow> bool \<Rightarrow> error + jsnum" where
  "parse m value' opts useRounding =
     (case scaled m value' opts of Inl e \<Rightarrow> Inl e
      | Inr v \<Rightarrow>
          (let v' = string_to_number (toFixed_string 4 v)
           in Inr (if useRounding then js_round v' else v')))"

subsection \<open>The class\<close>

text \<open>
  The constructor (lines 149 to 179). \<open>resolved\<close> is what lines 166 to 174 do to the
  settings: the default increment \<^verbatim>\<open>settings.increment || (1 / precision)\<close> and the choice
  of the grouping expression.
\<close>

definition resolved :: "settings \<Rightarrow> jsnum \<Rightarrow> settings" where
  "resolved settings' precision' =
     settings'
       \<lparr> increment :=
           (case increment settings' of
              Some i \<Rightarrow> Some (if truthy i then i else js_div (Fin 1) precision')
            | None \<Rightarrow> Some (js_div (Fin 1) precision')),
         groups := Some (if useVedic settings' = Some True then VedicRegex else GroupRegex) \<rparr>"

definition Currency :: "js_mode \<Rightarrow> jsval \<Rightarrow> opts \<Rightarrow> error + currency" where
  "Currency m value' opts' =
     (let this_value' = (case value' of VCur c \<Rightarrow> VNum (c_value c) | _ \<Rightarrow> value');
          settings' = assign defaults opts';
          precision' = pow (precision settings')
      in case parse m this_value' settings' True of Inl e \<Rightarrow> Inl e
         | Inr v \<Rightarrow>
             Inr \<lparr> intValue = v,
                   c_value = js_div v precision',
                   c_settings = resolved settings' precision',
                   c_precision = precision',
                   c_opts = opts' \<rparr>)"

text \<open>\<^verbatim>\<open>add\<close>, \<^verbatim>\<open>subtract\<close>, \<^verbatim>\<open>multiply\<close>, \<^verbatim>\<open>divide\<close> (lines 186 to 219).\<close>

definition add :: "js_mode \<Rightarrow> currency \<Rightarrow> jsval \<Rightarrow> error + currency" where
  "add m c number =
     (case parse m number (c_settings c) True of Inl e \<Rightarrow> Inl e
      | Inr n \<Rightarrow> Currency m (VNum (js_div (js_add (intValue c) n) (c_precision c)))
                   (as_opts (c_settings c)))"

definition subtract :: "js_mode \<Rightarrow> currency \<Rightarrow> jsval \<Rightarrow> error + currency" where
  "subtract m c number =
     (case parse m number (c_settings c) True of Inl e \<Rightarrow> Inl e
      | Inr n \<Rightarrow> Currency m (VNum (js_div (js_sub (intValue c) n) (c_precision c)))
                   (as_opts (c_settings c)))"

definition multiply :: "js_mode \<Rightarrow> currency \<Rightarrow> jsval \<Rightarrow> error + currency" where
  "multiply m c number =
     (case to_number number of Inl e \<Rightarrow> Inl e
      | Inr n \<Rightarrow> Currency m (VNum (js_div (js_mul (intValue c) n)
                                    (pow (precision (c_settings c)))))
                   (as_opts (c_settings c)))"

definition divide :: "js_mode \<Rightarrow> currency \<Rightarrow> jsval \<Rightarrow> error + currency" where
  "divide m c number =
     (case parse m number (c_settings c) False of Inl e \<Rightarrow> Inl e
      | Inr n \<Rightarrow> Currency m (VNum (js_div (intValue c) n)) (as_opts (c_settings c)))"




text \<open>\<^verbatim>\<open>dollars\<close> and \<^verbatim>\<open>cents\<close> (lines 249 to 260).\<close>

definition dollars :: "currency \<Rightarrow> int" where
  "dollars c = to_int32 (c_value c)"

definition cents :: "currency \<Rightarrow> int" where
  "cents c = to_int32 (js_mod (intValue c) (c_precision c))"

text \<open>
  \<^verbatim>\<open>format\<close> (lines 267 to 279). A digit gets the separator after it when the digits
  that follow it, up to a word boundary, are a positive multiple of three
  (\<^verbatim>\<open>/(\d)(?=(\d{3})+\b)/g\<close>), or an odd number of at least three
  (\<^verbatim>\<open>/(\d)(?=(\d\d)+\d\b)/g\<close>). The symbol, the separator and the decimal mark are
  inserted literally (they are, as long as they contain no \<^verbatim>\<open>$\<close> pattern).
\<close>

definition is_word :: "char \<Rightarrow> bool" where
  "is_word c = (is_alnum c \<or> c = CHR ''_'')"

definition group_here :: "grouping \<Rightarrow> string \<Rightarrow> bool" where
  "group_here g rest =
     (let r = length (takeWhile is_digit rest);
          after = dropWhile is_digit rest
      in (case after of [] \<Rightarrow> True | a # _ \<Rightarrow> \<not> is_word a) \<and>
         (case g of GroupRegex \<Rightarrow> 0 < r \<and> r mod 3 = 0
                  | VedicRegex \<Rightarrow> 3 \<le> r \<and> odd r))"

fun insert_groups :: "grouping \<Rightarrow> string \<Rightarrow> string \<Rightarrow> string" where
  "insert_groups g sep [] = []"
| "insert_groups g sep (c # cs) =
     (if is_digit c \<and> group_here g cs then c # sep @ insert_groups g sep cs
      else c # insert_groups g sep cs)"

fun split_on :: "char \<Rightarrow> string \<Rightarrow> string list" where
  "split_on d [] = [[]]"
| "split_on d (c # cs) =
     (if c = d then [] # split_on d cs
      else (case split_on d cs of p # ps \<Rightarrow> (c # p) # ps | [] \<Rightarrow> [[c]]))"

fun replace_first :: "char \<Rightarrow> string \<Rightarrow> string \<Rightarrow> string" where
  "replace_first d r [] = []"
| "replace_first d r (c # cs) = (if c = d then r @ cs else c # replace_first d r cs)"

definition format :: "currency \<Rightarrow> bool option \<Rightarrow> error + string" where
  "format c useSymbol =
     (case toString c of Inl e \<Rightarrow> Inl e
      | Inr str \<Rightarrow>
          (let s = c_settings c;
               values = split_on CHR ''.''
                          (case str of x # xs \<Rightarrow> if x = CHR ''-'' then xs else str | [] \<Rightarrow> str);
               dollars' = hd values;
               cents' = (if 1 < length values then values ! 1 else []);
               useSymbol' = (case useSymbol of None \<Rightarrow> formatWithSymbol s | Some b \<Rightarrow> b)
           in Inr (replace_first CHR ''#''
                     ((case groups s of Some g \<Rightarrow> insert_groups g (separator s) dollars'
                       | None \<Rightarrow> dollars')
                      @ (if cents' \<noteq> [] then decimal s @ cents' else []))
                     (replace_first CHR ''!'' (if useSymbol' then symbol s else [])
                        (if js_ge (c_value c) (Fin 0) then pattern s else negativePattern s)))))"

subsection \<open>Compositions used to state examples\<close>


text \<open>
  \<^verbatim>\<open>new Currency(v, opts)\<close>, read off as \<^verbatim>\<open>intValue\<close>, \<^verbatim>\<open>value\<close>, \<^verbatim>\<open>dollars()\<close> and
  \<^verbatim>\<open>cents()\<close>.
\<close>

definition dollars_cents ::
  "js_mode \<Rightarrow> jsval \<Rightarrow> opts \<Rightarrow> error + jsnum \<times> jsnum \<times> int \<times> int" where
  "dollars_cents m v opts' =
     map_sum id (\<lambda>c. (intValue c, c_value c, dollars c, cents c)) (Currency m v opts')"

text \<open>
  \<^verbatim>\<open>(a.add(b)).add(c).intValue\<close> for three currency objects.
\<close>

definition sum_of_three :: "js_mode \<Rightarrow> currency \<Rightarrow> currency \<Rightarrow> currency \<Rightarrow> error + jsnum" where
  "sum_of_three m a b c =
     (case add m a (VCur b) of Inl e \<Rightarrow> Inl e
      | Inr ab \<Rightarrow> map_sum id intValue (add m ab (VCur c)))"

text \<open>\<^verbatim>\<open>new Currency(x, ox).multiply(new Currency(y, oy))\<close>\<close>

definition multiply_new ::
  "js_mode \<Rightarrow> jsval \<Rightarrow> opts \<Rightarrow> jsval \<Rightarrow> opts \<Rightarrow> error + currency" where
  "multiply_new m x ox y oy =
     (case Currency m x ox of Inl e \<Rightarrow> Inl e
      | Inr a \<Rightarrow> (case Currency m y oy of Inl e \<Rightarrow> Inl e
                  | Inr b \<Rightarrow> multiply m a (VCur b)))"

subsection \<open>The final step of the parser as the specification words it\<close>




subsection \<open>The shares of the specification\<close>

text \<open>
  The distribution algorithm as the specification words it (section 4.3), on integers:
  the share is the quotient truncated towards zero, the remainder is the absolute
  difference, and the first \<open>remainder\<close> entries get one unit more (one less for a negative
  amount). \<open>loop_shares\<close> is the same list as the loop produces it, entry by entry.
\<close>

definition share :: "int \<Rightarrow> int \<Rightarrow> int" where
  "share k n = (if 0 \<le> k then k div n else - ((- k) div n))"



section \<open>Properties of the number model\<close>

subsection \<open>Floor and ceiling of rational numerals\<close>

lemma floor_rat_numeral_div [simp]: "\<lfloor>(numeral a :: rat) / numeral b\<rfloor> = numeral a div numeral b"
  by (metis floor_divide_of_int_eq of_int_numeral)
lemma floor_rat_neg_numeral_div [simp]: "\<lfloor>- ((numeral a :: rat) / numeral b)\<rfloor> = - numeral a div numeral b"
  by (metis divide_minus_left floor_divide_of_int_eq of_int_neg_numeral of_int_numeral)
lemma floor_rat_one_div [simp]: "\<lfloor>(1 :: rat) / numeral b\<rfloor> = 1 div numeral b"
  by (metis floor_divide_of_int_eq of_int_1 of_int_numeral)
lemma floor_rat_neg_one_div [simp]: "\<lfloor>- ((1 :: rat) / numeral b)\<rfloor> = - 1 div numeral b"
  by (metis divide_minus_left floor_divide_of_int_eq of_int_minus of_int_1 of_int_numeral)
lemma ceiling_rat_numeral_div [simp]: "\<lceil>(numeral a :: rat) / numeral b\<rceil> = - (- numeral a div numeral b)"
  unfolding ceiling_def by simp
lemma ceiling_rat_neg_numeral_div [simp]: "\<lceil>- ((numeral a :: rat) / numeral b)\<rceil> = - (numeral a div numeral b)"
  unfolding ceiling_def by simp
lemma ceiling_rat_one_div [simp]: "\<lceil>(1 :: rat) / numeral b\<rceil> = - (- 1 div numeral b)"
  unfolding ceiling_def by simp
lemma ceiling_rat_neg_one_div [simp]: "\<lceil>- ((1 :: rat) / numeral b)\<rceil> = - (1 div numeral b)"
  unfolding ceiling_def by simp

lemma replicate_numeral [simp]: "replicate (numeral k) x = x # replicate (pred_numeral k) x"
  by (simp add: numeral_eq_Suc)
lemma digits_lt: "n < 10 \<Longrightarrow> digits n = [digit_char n]"
  by (simp add: digits.simps)
lemma digits_ge: "10 \<le> n \<Longrightarrow> digits n = digits (n div 10) @ [digit_char (n mod 10)]"
  by (subst digits.simps) simp

subsection \<open>The binary exponent and rounding to nearest\<close>

lemma bitlen_bounds_rat:
  assumes "0 < n"
  shows "(2::rat) powi (bitlen n - 1) \<le> of_int n" "(of_int n :: rat) < 2 powi (bitlen n)"
proof -
  from bitlen_bounds[OF assms] have a: "2 ^ nat (bitlen n - 1) \<le> n" and b: "n < 2 ^ nat (bitlen n)"
    by auto
  have ge1: "1 \<le> bitlen n" using assms by (auto simp: bitlen_alt_def)
  have "(2::rat) powi (bitlen n - 1) = 2 ^ nat (bitlen n - 1)"
    using ge1 by (simp add: power_int_def)
  also have "\<dots> = of_int (2 ^ nat (bitlen n - 1))" by simp
  also have "\<dots> \<le> of_int n" using a by (simp only: of_int_le_iff)
  finally show "(2::rat) powi (bitlen n - 1) \<le> of_int n" .
  have "(of_int n :: rat) < of_int (2 ^ nat (bitlen n))" using b by (simp only: of_int_less_iff)
  also have "\<dots> = 2 powi (bitlen n)" using ge1 by (simp add: power_int_def)
  finally show "(of_int n :: rat) < 2 powi (bitlen n)" .
qed

lemma powi_neg_le: "1 \<le> 2 powi b * a \<Longrightarrow> (2::rat) powi (- b) \<le> a"
proof -
  define P :: rat where "P = 2 powi b"
  have P: "0 < P" by (simp add: P_def)
  have e: "(2::rat) powi (- b) = 1 / P" by (simp add: P_def power_int_minus divide_inverse)
  assume "1 \<le> 2 powi b * a"
  then have "1 \<le> P * a" by (simp add: P_def)
  then show ?thesis unfolding e using P by (simp add: field_simps)
qed

lemma powi_neg_less: "2 powi b * a < 1 \<Longrightarrow> a < (2::rat) powi (- b)"
proof -
  define P :: rat where "P = 2 powi b"
  have P: "0 < P" by (simp add: P_def)
  have e: "(2::rat) powi (- b) = 1 / P" by (simp add: P_def power_int_minus divide_inverse)
  assume "2 powi b * a < 1"
  then have "P * a < 1" by (simp add: P_def)
  then show ?thesis unfolding e using P by (simp add: field_simps)
qed

lemma ilog2_bounds:
  assumes "x \<noteq> 0"
  shows "2 powi (ilog2 x) \<le> \<bar>x\<bar>" "\<bar>x\<bar> < 2 powi (ilog2 x + 1)"
proof -
  show "2 powi (ilog2 x) \<le> \<bar>x\<bar>"
  proof (cases "1 \<le> \<bar>x\<bar>")
    case True
    then have n: "0 < \<lfloor>\<bar>x\<bar>\<rfloor>" by simp
    have "2 powi (bitlen \<lfloor>\<bar>x\<bar>\<rfloor> - 1) \<le> (of_int \<lfloor>\<bar>x\<bar>\<rfloor> :: rat)"
      by (rule bitlen_bounds_rat[OF n])
    also have "\<dots> \<le> \<bar>x\<bar>" by simp
    finally show ?thesis using True by (simp add: ilog2_def)
  next
    case False
    define y where "y = 1 / \<bar>x\<bar>"
    have y1: "1 < y" using False assms by (simp add: y_def)
    define c where "c = \<lceil>y\<rceil> - 1"
    have c1: "0 < c" using y1 by (simp add: c_def less_ceiling_iff)
    have yc: "y \<le> of_int c + 1" by (simp add: c_def)
    have "(of_int c :: rat) < 2 powi (bitlen c)" by (rule bitlen_bounds_rat[OF c1])
    then have "of_int c + 1 \<le> (2::rat) powi (bitlen c)"
    proof -
      have ge: "0 \<le> bitlen c" by (rule bitlen_nonneg)
      assume "(of_int c :: rat) < 2 powi (bitlen c)"
      then have "(of_int c :: rat) < of_int (2 ^ nat (bitlen c))" using ge by (simp add: power_int_def)
      then have "c < 2 ^ nat (bitlen c)" by (simp only: of_int_less_iff)
      then have "c + 1 \<le> 2 ^ nat (bitlen c)" by simp
      then have "(of_int (c + 1) :: rat) \<le> of_int (2 ^ nat (bitlen c))" by (simp only: of_int_le_iff)
      then show ?thesis using ge by (simp add: power_int_def)
    qed
    with yc have "y \<le> 2 powi (bitlen c)" by linarith
    then have "1 / \<bar>x\<bar> \<le> 2 powi (bitlen c)" by (simp add: y_def)
    then have "1 \<le> 2 powi (bitlen c) * \<bar>x\<bar>" using assms by (simp add: field_simps)
    then have "2 powi (- bitlen c) \<le> \<bar>x\<bar>"
      by (rule powi_neg_le)
    then show ?thesis using False by (simp add: ilog2_def c_def y_def)
  qed
  show "\<bar>x\<bar> < 2 powi (ilog2 x + 1)"
  proof (cases "1 \<le> \<bar>x\<bar>")
    case True
    then have n: "0 < \<lfloor>\<bar>x\<bar>\<rfloor>" by simp
    have "\<bar>x\<bar> < of_int \<lfloor>\<bar>x\<bar>\<rfloor> + 1" by linarith
    moreover have "(of_int \<lfloor>\<bar>x\<bar>\<rfloor> :: rat) < 2 powi (bitlen \<lfloor>\<bar>x\<bar>\<rfloor>)" by (rule bitlen_bounds_rat[OF n])
    then have "(of_int \<lfloor>\<bar>x\<bar>\<rfloor> :: rat) + 1 \<le> 2 powi (bitlen \<lfloor>\<bar>x\<bar>\<rfloor>)"
    proof -
      have ge: "0 \<le> bitlen \<lfloor>\<bar>x\<bar>\<rfloor>" by (rule bitlen_nonneg)
      assume "(of_int \<lfloor>\<bar>x\<bar>\<rfloor> :: rat) < 2 powi (bitlen \<lfloor>\<bar>x\<bar>\<rfloor>)"
      then have "(of_int \<lfloor>\<bar>x\<bar>\<rfloor> :: rat) < of_int (2 ^ nat (bitlen \<lfloor>\<bar>x\<bar>\<rfloor>))" using ge by (simp add: power_int_def)
      then have "\<lfloor>\<bar>x\<bar>\<rfloor> < 2 ^ nat (bitlen \<lfloor>\<bar>x\<bar>\<rfloor>)" by (simp only: of_int_less_iff)
      then have "\<lfloor>\<bar>x\<bar>\<rfloor> + 1 \<le> 2 ^ nat (bitlen \<lfloor>\<bar>x\<bar>\<rfloor>)" by simp
      then have "(of_int (\<lfloor>\<bar>x\<bar>\<rfloor> + 1) :: rat) \<le> of_int (2 ^ nat (bitlen \<lfloor>\<bar>x\<bar>\<rfloor>))" by (simp only: of_int_le_iff)
      then show ?thesis using ge by (simp add: power_int_def)
    qed
    ultimately show ?thesis using True by (simp add: ilog2_def)
  next
    case False
    define y where "y = 1 / \<bar>x\<bar>"
    have y1: "1 < y" using False assms by (simp add: y_def)
    define c where "c = \<lceil>y\<rceil> - 1"
    have c1: "0 < c" using y1 by (simp add: c_def less_ceiling_iff)
    have cy: "of_int c < y" unfolding c_def by linarith
    have "2 powi (bitlen c - 1) \<le> (of_int c :: rat)" by (rule bitlen_bounds_rat[OF c1])
    with cy have "2 powi (bitlen c - 1) < y" by linarith
    then have "2 powi (bitlen c - 1) * \<bar>x\<bar> < 1" using assms by (simp add: y_def field_simps)
    then have "\<bar>x\<bar> < 2 powi (- (bitlen c - 1))"
      by (rule powi_neg_less)
    then show ?thesis using False by (simp add: ilog2_def c_def y_def)
  qed
qed

lemma powi2_mono: "a \<le> b \<Longrightarrow> (2::rat) powi a \<le> 2 powi b"
  by (rule power_int_increasing) simp_all

lemma powi2_less_cancel: "(2::rat) powi a < 2 powi b \<Longrightarrow> a < b"
proof (rule ccontr)
  assume l: "(2::rat) powi a < 2 powi b" and "\<not> a < b"
  then have "b \<le> a" by simp
  then have "(2::rat) powi b \<le> 2 powi a" by (rule powi2_mono)
  with l show False by simp
qed

lemma ilog2_unique:
  assumes "2 powi e \<le> \<bar>x\<bar>" "\<bar>x\<bar> < 2 powi (e + 1)"
  shows "ilog2 x = e"
proof -
  have pos: "0 < (2::rat) powi e" by simp
  with assms(1) have "0 < \<bar>x\<bar>" by linarith
  then have nz: "x \<noteq> 0" by simp
  note b = ilog2_bounds[OF nz]
  from b(1) assms(2) have "(2::rat) powi (ilog2 x) < 2 powi (e + 1)" by linarith
  then have "ilog2 x < e + 1" by (rule powi2_less_cancel)
  moreover from assms(1) b(2) have "(2::rat) powi e < 2 powi (ilog2 x + 1)" by linarith
  then have "e < ilog2 x + 1" by (rule powi2_less_cancel)
  ultimately show ?thesis by simp
qed

lemma round_half_even_int [simp]: "round_half_even (of_int k) = k"
  by (simp add: round_half_even_def)

lemma round_half_even_close: "\<bar>of_int (round_half_even y) - y\<bar> \<le> 1 / 2"
proof -
  have a: "of_int \<lfloor>y\<rfloor> \<le> y" and b: "y < of_int \<lfloor>y\<rfloor> + 1" by linarith+
  consider "y - of_int \<lfloor>y\<rfloor> < 1 / 2" | "1 / 2 < y - of_int \<lfloor>y\<rfloor>" | "y - of_int \<lfloor>y\<rfloor> = 1 / 2"
    by linarith
  then show ?thesis
  proof cases
    case 1
    then have r: "round_half_even y = \<lfloor>y\<rfloor>" by (simp add: round_half_even_def Let_def)
    show ?thesis unfolding r using a 1 by linarith
  next
    case 2
    then have r: "round_half_even y = \<lfloor>y\<rfloor> + 1" by (simp add: round_half_even_def Let_def)
    have "\<bar>(of_int \<lfloor>y\<rfloor> :: rat) + 1 - y\<bar> \<le> 1 / 2" using b 2 by linarith
    then show ?thesis unfolding r by simp
  next
    case 3
    then have "round_half_even y = \<lfloor>y\<rfloor> \<or> round_half_even y = \<lfloor>y\<rfloor> + 1"
      by (simp add: round_half_even_def Let_def)
    moreover have "\<bar>(of_int \<lfloor>y\<rfloor> :: rat) + 1 - y\<bar> \<le> 1 / 2" using 3 by linarith
    moreover have "\<bar>(of_int \<lfloor>y\<rfloor> :: rat) - y\<bar> \<le> 1 / 2" using 3 by linarith
    ultimately show ?thesis by auto
  qed
qed

lemma round_half_even_eqI:
  assumes "\<bar>y - of_int n\<bar> < 1 / 2"
  shows "round_half_even y = n"
proof -
  have "\<bar>of_int (round_half_even y) - y\<bar> \<le> 1 / 2" by (rule round_half_even_close)
  with assms have "\<bar>(of_int (round_half_even y) :: rat) - of_int n\<bar> < 1" by linarith
  then have "\<bar>(of_int (round_half_even y - n) :: rat)\<bar> < 1" by simp
  then have "\<bar>round_half_even y - n\<bar> < 1"
    by (metis of_int_abs of_int_less_1_iff)
  then show ?thesis by simp
qed

lemma fl_eqI:
  assumes e: "2 powi e \<le> \<bar>x\<bar>" "\<bar>x\<bar> < 2 powi (e + 1)"
    and q: "q = max (e - 52) (- 1074)"
    and n: "\<bar>x / 2 powi q - of_int n\<bar> < 1 / 2"
    and r: "r = of_int n * 2 powi q"
    and b: "\<bar>r\<bar> < 2 ^ 1024"
  shows "fl x = Fin r"
proof -
  have "0 < (2::rat) powi e" by simp
  with e(1) have "0 < \<bar>x\<bar>" by linarith
  then have nz: "x \<noteq> 0" by simp
  have l: "ilog2 x = e" by (rule ilog2_unique[OF e])
  have rr: "round_half_even (x / 2 powi q) = n" by (rule round_half_even_eqI[OF n])
  show ?thesis using nz b by (simp add: fl_def l q[symmetric] rr r Let_def)
qed

lemma fl_zero [simp]: "fl 0 = Fin 0"
  by (simp add: fl_def)

lemma fl_representable:
  assumes x: "x = of_int z * 2 powi q'" and z: "\<bar>z\<bar> < 2 ^ 53" and q': "- 1074 \<le> q'"
    and b: "\<bar>x\<bar> < 2 ^ 1024"
  shows "fl x = Fin x"
proof (cases "x = 0")
  case True
  then show ?thesis by simp
next
  case False
  define e where "e = ilog2 x"
  define q where "q = max (e - 52) (- 1074)"
  note eb = ilog2_bounds[OF False, folded e_def]
  have "\<bar>x\<bar> = of_int \<bar>z\<bar> * 2 powi q'" by (simp add: x abs_mult)
  also have "\<dots> < 2 ^ 53 * 2 powi q'"
  proof -
    have "(of_int \<bar>z\<bar> :: rat) < of_int (2 ^ 53)" using z by (simp only: of_int_less_iff)
    then show ?thesis by simp
  qed
  also have "\<dots> = 2 powi (53 + q')" by (simp add: power_int_add)
  finally have "\<bar>x\<bar> < 2 powi (53 + q')" .
  with eb(1) have "(2::rat) powi e < 2 powi (53 + q')" by linarith
  then have "e < 53 + q'" by (rule powi2_less_cancel)
  with q' have qq: "q \<le> q'" by (simp add: q_def)
  have "x / 2 powi q = of_int z * 2 powi (q' - q)"
    by (simp add: x power_int_diff)
  also have "\<dots> = of_int (z * 2 ^ nat (q' - q))" using qq by (simp add: power_int_def)
  finally have i: "x / 2 powi q = of_int (z * 2 ^ nat (q' - q))" .
  have "of_int (round_half_even (x / 2 powi q)) * 2 powi q = x"
    unfolding i round_half_even_int unfolding i[symmetric] by simp
  then show ?thesis using False b
    by (simp add: fl_def Let_def e_def[symmetric] q_def[symmetric])
qed

lemma fl_int:
  assumes "\<bar>k\<bar> \<le> 2 ^ 53"
  shows "fl (of_int k) = Fin (of_int k)"
proof (cases "\<bar>k\<bar> = 2 ^ 53")
  case True
  then have k: "k = 2 ^ 53 \<or> k = - (2 ^ 53)" by linarith
  show ?thesis
  proof (rule fl_representable[where z = "k div 2" and q' = 1])
    show "rat_of_int k = rat_of_int (k div 2) * 2 powi 1" using k by auto
    show "\<bar>k div 2\<bar> < 2 ^ 53" using k by auto
    show "\<bar>rat_of_int k\<bar> < 2 ^ 1024" using k by auto
  qed simp
next
  case False
  with assms have lt: "\<bar>k\<bar> < 2 ^ 53" by simp
  show ?thesis
  proof (rule fl_representable[where z = k and q' = 0])
    have "\<bar>rat_of_int k\<bar> = of_int \<bar>k\<bar>" by simp
    also have "\<dots> < of_int (2 ^ 53)" using lt by (simp only: of_int_less_iff)
    also have "\<dots> < 2 ^ 1024" by simp
    finally show "\<bar>rat_of_int k\<bar> < 2 ^ 1024" .
  qed (use lt in simp_all)
qed

lemma fl_error:
  assumes lo: "2 powi (- 1022) \<le> \<bar>x\<bar>" and hi: "\<bar>x\<bar> \<le> 2 ^ 1023"
  shows "\<exists>y. fl x = Fin y \<and> \<bar>y - x\<bar> \<le> \<bar>x\<bar> / 2 ^ 53"
proof -
  have "0 < (2::rat) powi (- 1022)" by simp
  with lo have "0 < \<bar>x\<bar>" by linarith
  then have nz: "x \<noteq> 0" by simp
  define e where "e = ilog2 x"
  note eb = ilog2_bounds[OF nz, folded e_def]
  from lo eb(2) have "(2::rat) powi (- 1022) < 2 powi (e + 1)" by linarith
  then have "- 1022 < e + 1" by (rule powi2_less_cancel)
  then have q: "max (e - 52) (- 1074) = e - 52" by simp
  define Q :: rat where "Q = 2 powi (e - 52)"
  have Qpos: "0 < Q" by (simp add: Q_def)
  define n where "n = round_half_even (x / Q)"
  define y where "y = of_int n * Q"
  have "\<bar>of_int n - x / Q\<bar> \<le> 1 / 2" unfolding n_def by (rule round_half_even_close)
  then have "\<bar>of_int n - x / Q\<bar> * Q \<le> 1 / 2 * Q" using Qpos by (simp only: mult_le_cancel_right_pos)
  moreover have "\<bar>of_int n - x / Q\<bar> * Q = \<bar>y - x\<bar>"
  proof -
    have "\<bar>of_int n - x / Q\<bar> * Q = \<bar>(of_int n - x / Q) * Q\<bar>" using Qpos by (simp add: abs_mult)
    also have "(of_int n - x / Q) * Q = y - x" using Qpos by (simp add: y_def field_simps)
    finally show ?thesis .
  qed
  ultimately have d: "\<bar>y - x\<bar> \<le> Q / 2" by simp
  have "Q * 2 ^ 52 = 2 powi e" 
    by (simp add: Q_def power_int_diff)
  then have Qe: "Q = 2 powi e / 2 ^ 52" by (simp add: field_simps)
  then have "Q / 2 \<le> \<bar>x\<bar> / 2 ^ 53" using eb(1) by (simp add: field_simps)
  with d have err: "\<bar>y - x\<bar> \<le> \<bar>x\<bar> / 2 ^ 53" by linarith
  have "\<bar>y\<bar> \<le> \<bar>x\<bar> + \<bar>x\<bar> / 2 ^ 53" using err by linarith
  also have "\<dots> \<le> 2 ^ 1023 + 2 ^ 1023 / 2 ^ 53" using hi by (simp add: field_simps)
  also have "\<dots> < 2 ^ 1024" by simp
  finally have b: "\<bar>y\<bar> < 2 ^ 1024" .
  have "fl x = Fin y" using nz b
    by (simp add: fl_def Let_def e_def[symmetric] q Q_def[symmetric] n_def[symmetric] y_def[symmetric])
  with err show ?thesis by blast
qed

lemma fl_numeral [simp]: "(numeral k :: int) \<le> 2 ^ 53 \<Longrightarrow> fl (numeral k) = Fin (numeral k)"
  using fl_int[of "numeral k"] by simp

lemma fl_neg_numeral [simp]: "(numeral k :: int) \<le> 2 ^ 53 \<Longrightarrow> fl (- numeral k) = Fin (- numeral k)"
  using fl_int[of "- numeral k"] by simp

lemma fl_one [simp]: "fl 1 = Fin 1"
  using fl_int[of 1] by simp

lemma pow_nat:
  assumes "0 \<le> p" "p \<le> 22"
  shows "pow p = Fin (10 ^ nat p)"
proof -
  define n where "n = nat p"
  have n: "n \<le> 22" using assms by (simp add: n_def)
  have p: "p = int n" using assms by (simp add: n_def)
  have "fl (10 ^ n) = Fin (10 ^ n)"
  proof (rule fl_representable[where z = "5 ^ n" and q' = "int n"])
    have "(10::rat) ^ n = (5 * 2) ^ n" by simp
    also have "\<dots> = 5 ^ n * 2 ^ n" by (simp only: power_mult_distrib)
    finally show "(10::rat) ^ n = of_int (5 ^ n) * 2 powi (int n)" by (simp add: power_int_def)
    have "(5::int) ^ n \<le> 5 ^ 22" using n by (intro power_increasing) simp_all
    then show "\<bar>(5::int) ^ n\<bar> < 2 ^ 53" by simp
    have "(10::rat) ^ n \<le> 10 ^ 22" using n by (intro power_increasing) simp_all
    then show "\<bar>(10::rat) ^ n\<bar> < 2 ^ 1024" by simp
  qed simp
  then show ?thesis by (simp add: pow_def p n_def[symmetric] power_int_def)
qed

lemma pow_2 [simp]: "pow 2 = Fin 100"
  using pow_nat[of 2] by simp

subsection \<open>Evaluation of the string functions\<close>

lemmas digit_ev = toFixed_string.simps fixed_digits_def Let_def digits_lt digits_ge digit_char_def

lemmas number_ev = string_to_number_def trim_def is_space_def decimal_literal_def
  unsigned_decimal_def signed_integer_def is_digit_def digit_val_def

subsection \<open>Digits, and reading back what \<^verbatim>\<open>toFixed\<close> wrote\<close>








lemma is_digit_not_dot [simp]: "\<not> is_digit CHR ''.''" "\<not> is_digit CHR ''-''" "\<not> is_digit CHR ''e''" "\<not> is_digit CHR ''E''"
  by (simp_all add: is_digit_def)







lemma is_digit_not_space: "is_digit c \<Longrightarrow> \<not> is_space c"
  by (auto simp: is_digit_def is_space_def)







subsection \<open>Rounding errors of a division followed by a multiplication\<close>







lemma of_int_abs_le: "\<bar>k\<bar> \<le> b \<Longrightarrow> \<bar>(of_int k :: rat)\<bar> \<le> of_int b"
proof -
  assume "\<bar>k\<bar> \<le> b"
  then have "(of_int \<bar>k\<bar> :: rat) \<le> of_int b" by (simp only: of_int_le_iff)
  then show ?thesis by simp
qed

lemma fl_div_floor:
  assumes k: "0 \<le> k" "k < 2 ^ 53" and n: "0 < n" "n \<le> 2 ^ 53"
  shows "\<exists>y. fl (of_int k / of_int n) = Fin y \<and> \<lfloor>y\<rfloor> = k div n \<and> 0 \<le> y"
proof -
  define t where "t = k div n"
  define r where "r = k mod n"
  have kt: "k = t * n + r" by (simp add: t_def r_def)
  have r: "0 \<le> r" "r < n" using n by (simp_all add: r_def)
  have t0: "0 \<le> t" using k n by (simp add: t_def pos_imp_zdiv_nonneg_iff)
  have tk: "t \<le> k" using k n t0 r kt by (metis add_increasing2 mult.right_neutral mult_left_mono int_one_le_iff_zero_less)
  define N :: rat where "N = of_int n"
  have Npos: "0 < N" using n by (simp add: N_def)
  have Nhi: "N \<le> 2 ^ 53" using of_int_abs_le[of n "2 ^ 53"] n by (simp add: N_def)
  define x :: rat where "x = of_int k / N"
  have xt: "x = of_int t + of_int r / N"
  proof -
    have "(of_int k :: rat) = of_int t * N + of_int r" by (simp add: kt N_def)
    then show ?thesis using Npos by (simp add: x_def field_simps)
  qed
  show ?thesis
  proof (cases "r = 0")
    case True
    then have "x = of_int t" by (simp add: xt)
    moreover have "fl (of_int t) = Fin (of_int t)" using t0 tk k by (intro fl_int) simp
    ultimately show ?thesis using t0 by (auto simp: x_def N_def t_def)
  next
    case False
    with r have r1: "1 \<le> r" by simp
    have rN: "1 / N \<le> of_int r / N"
    proof -
      have "(of_int 1 :: rat) \<le> of_int r" using r1 by (simp only: of_int_le_iff)
      then show ?thesis using Npos by (simp add: divide_right_mono)
    qed
    have rN': "of_int r / N \<le> 1 - 1 / N"
    proof -
      have "r \<le> n - 1" using r by simp
      then have "(of_int r :: rat) \<le> of_int (n - 1)" by (simp only: of_int_le_iff)
      then have "(of_int r :: rat) \<le> N - 1" by (simp add: N_def)
      then have "of_int r / N \<le> (N - 1) / N" using Npos by (simp add: divide_right_mono)
      also have "\<dots> = 1 - 1 / N" using Npos by (simp add: field_simps)
      finally show ?thesis .
    qed
    have t0r: "(0::rat) \<le> of_int t" using t0 by simp
    have xlo: "1 / N \<le> x" using xt rN t0r by linarith
    have "0 < 1 / N" using Npos by simp
    with xlo have xpos: "0 < x" by linarith
    have kr: "(of_int k :: rat) < 2 ^ 53"
    proof -
      have "(of_int k :: rat) < of_int (2 ^ 53)" using k by (simp only: of_int_less_iff)
      then show ?thesis by simp
    qed
    have k0: "(0::rat) \<le> of_int k" using k by simp
    have xhi: "x \<le> of_int k"
    proof -
      have "1 \<le> N" using n by (simp add: N_def) 
      then have "of_int k / N \<le> of_int k / 1" using k0 by (intro divide_left_mono) simp_all
      then show ?thesis by (simp add: x_def)
    qed
    have "2 powi (- 1022) \<le> \<bar>x\<bar>"
    proof -
      have "1 / 2 ^ 53 \<le> 1 / N" using Nhi Npos by (simp add: field_simps)
      moreover have "(2::rat) powi (- 1022) \<le> 1 / 2 ^ 53" by (simp add: power_int_minus field_simps)
      ultimately show ?thesis using xlo by linarith
    qed
    moreover have "\<bar>x\<bar> \<le> 2 ^ 1023" using xhi kr xpos by simp
    ultimately obtain y where y: "fl x = Fin y" "\<bar>y - x\<bar> \<le> \<bar>x\<bar> / 2 ^ 53"
      using fl_error by blast
    have "\<bar>x\<bar> / 2 ^ 53 < 1 / N"
    proof -
      have "\<bar>x\<bar> = x" using xpos by simp
      then have "\<bar>x\<bar> / 2 ^ 53 = (of_int k / 2 ^ 53) / N" by (simp add: x_def)
      also have "\<dots> < 1 / N" using kr Npos by (intro divide_strict_right_mono) simp_all
      finally show ?thesis .
    qed
    with y(2) have d: "\<bar>y - x\<bar> < 1 / N" by linarith
    have lo: "of_int t < y" using d xt rN by linarith
    have hi: "y < of_int t + 1" using d xt rN' by linarith
    have "\<lfloor>y\<rfloor> = t" by (rule floor_unique) (use lo hi in simp_all)
    moreover have "0 \<le> y" using lo t0r by linarith
    ultimately show ?thesis using y(1) by (auto simp: x_def N_def t_def)
  qed
qed

lemma round_half_even_add:
  assumes "0 \<le> r" "r < 1"
  shows "round_half_even (of_int f + r) =
    (if r < 1 / 2 then f else if 1 / 2 < r then f + 1 else if even f then f else f + 1)"
proof -
  have "\<lfloor>of_int f + r\<rfloor> = f" by (rule floor_unique) (use assms in simp_all)
  then show ?thesis by (simp add: round_half_even_def Let_def)
qed

lemma round_half_even_neg: "round_half_even (- y) = - round_half_even y"
proof -
  define f where "f = \<lfloor>y\<rfloor>"
  define r where "r = y - of_int f"
  have r: "0 \<le> r" "r < 1" unfolding r_def f_def by linarith+
  have y: "y = of_int f + r" by (simp add: r_def)
  show ?thesis
  proof (cases "r = 0")
    case True
    then have "y = of_int f" using y by simp
    then show ?thesis by (metis of_int_minus round_half_even_int)
  next
    case False
    with r have r0: "0 < r" by simp
    have ny: "- y = of_int (- f - 1) + (1 - r)" by (simp add: y)
    have a: "round_half_even y =
      (if r < 1 / 2 then f else if 1 / 2 < r then f + 1 else if even f then f else f + 1)"
      unfolding y by (rule round_half_even_add[OF r])
    have b: "round_half_even (- y) =
      (if 1 - r < 1 / 2 then - f - 1 else if 1 / 2 < 1 - r then - f - 1 + 1
       else if even (- f - 1) then - f - 1 else - f - 1 + 1)"
      unfolding ny by (rule round_half_even_add) (use r r0 in simp_all)
    consider "r < 1 / 2" | "1 / 2 < r" | "r = 1 / 2" by linarith
    then show ?thesis
    proof cases
      case 1
      then show ?thesis unfolding a b by simp
    next
      case 2
      then show ?thesis unfolding a b by simp
    next
      case 3
      then show ?thesis unfolding a b by simp
    qed
  qed
qed

lemma ilog2_neg: "ilog2 (- x) = ilog2 x"
  by (simp add: ilog2_def)

lemma fl_neg: "fl (- x) = js_neg (fl x)"
proof (cases "x = 0")
  case True
  then show ?thesis by simp
next
  case False
  then show ?thesis
    by (simp add: fl_def ilog2_neg round_half_even_neg Let_def)
qed

lemma fl_div_ceil:
  assumes k: "k < 0" "- (2 ^ 53) < k" and n: "0 < n" "n \<le> 2 ^ 53"
  shows "\<exists>y. fl (of_int k / of_int n) = Fin y \<and> \<lceil>y\<rceil> = - ((- k) div n) \<and> y \<le> 0"
proof -
  from fl_div_floor[of "- k" n] k n obtain y'
    where y': "fl (of_int (- k) / of_int n) = Fin y'" "\<lfloor>y'\<rfloor> = (- k) div n" "0 \<le> y'"
    by auto
  have "fl (of_int k / of_int n) = fl (- (of_int (- k) / of_int n))" by simp
  also have "\<dots> = Fin (- y')" unfolding fl_neg y'(1) by simp
  finally have "fl (of_int k / of_int n) = Fin (- y')" .
  moreover have "\<lceil>- y'\<rceil> = - ((- k) div n)" using y'(2) by (simp add: ceiling_minus)
  ultimately show ?thesis using y'(3) by auto
qed

section \<open>Properties of the class\<close>

subsection \<open>Parsing a scaled integer back\<close>

lemma parse_VNum:
  "parse m (VNum n) s r =
     Inr (if r then js_round (string_to_number (toFixed_string 4 (js_mul n (pow (precision s)))))
          else string_to_number (toFixed_string 4 (js_mul n (pow (precision s)))))"
  by (simp add: parse_def scaled_def Let_def)



lemma assign_as_opts: "assign defaults (as_opts s) = s"
  by (cases s) (simp add: assign_def as_opts_def defaults_def split: option.split)

lemma resolved_precision [simp]: "precision (resolved s P) = precision s"
  by (simp add: resolved_def)


subsection \<open>The shares\<close>


lemma share_remainder:
  assumes "0 < n"
  shows "\<bar>k - share k n * n\<bar> = (if 0 \<le> k then k mod n else (- k) mod n)"
proof (cases "0 \<le> k")
  case True
  have "k - k div n * n = k mod n" by (simp add: minus_div_mult_eq_mod)
  moreover have "0 \<le> k mod n" using assms by simp
  ultimately show ?thesis using True by (simp add: share_def)
next
  case False
  have "(- k) - (- k) div n * n = (- k) mod n" by (simp add: minus_div_mult_eq_mod)
  then have "k - (- ((- k) div n)) * n = - ((- k) mod n)" by linarith
  moreover have "0 \<le> (- k) mod n" using assms by simp
  ultimately show ?thesis using False by (simp add: share_def)
qed






subsection \<open>Adding and subtracting whole units; the loop of \<^verbatim>\<open>distribute\<close>\<close>

lemma fl_nat: "int j \<le> 2 ^ 53 \<Longrightarrow> fl (of_nat j) = Fin (of_nat j)"
  using fl_int[of "int j"] by simp







subsection \<open>Unfolding the loop; default settings\<close>



lemma fl_neg_one [simp]: "fl (- 1) = Fin (- 1)"
  using fl_int[of "- 1"] by simp

lemma default_settings [simp]: "assign defaults no_opts = defaults"
  by (simp add: assign_def no_opts_def defaults_def)

lemma default_precision [simp]: "precision defaults = 2"
  by (simp add: defaults_def)

subsection \<open>Truncation and the 32-bit conversion\<close>

lemma trunc_of_int [simp]: "trunc (of_int t) = t"
  by (simp add: trunc_def)

lemma trunc_of_int_div:
  assumes "0 < n"
  shows "trunc (of_int k / of_int n) = share k n"
proof (cases "0 \<le> k")
  case True
  then have "(0::rat) \<le> of_int k / of_int n" using assms by simp
  then show ?thesis using True by (simp add: trunc_def share_def floor_divide_of_int_eq)
next
  case False
  then have lt: "(of_int k :: rat) / of_int n < 0" using assms by (simp add: divide_neg_pos)
  have "\<lceil>(of_int k :: rat) / of_int n\<rceil> = - \<lfloor>of_int (- k) / (of_int n :: rat)\<rfloor>"
    by (simp add: ceiling_def)
  also have "\<dots> = - ((- k) div n)" by (simp only: floor_divide_of_int_eq)
  finally show ?thesis using False lt by (simp add: trunc_def share_def)
qed

lemma wrap_small:
  assumes "\<bar>t\<bar> < 2 ^ 31"
  shows "(let m = t mod 2 ^ 32 in if 2 ^ 31 \<le> m then m - 2 ^ 32 else m) = (t::int)"
proof (cases "0 \<le> t")
  case True
  then have "t mod 2 ^ 32 = t" using assms by simp
  then show ?thesis using assms True by (simp add: Let_def)
next
  case False
  then have "(t + 2 ^ 32) mod 2 ^ 32 = t + 2 ^ 32"
    using assms by (intro mod_pos_pos_trivial) simp_all
  moreover have "(t + 2 ^ 32) mod 2 ^ 32 = t mod 2 ^ 32" by simp
  ultimately have "t mod 2 ^ 32 = t + 2 ^ 32" by simp
  then show ?thesis using assms False by (simp add: Let_def)
qed

lemma to_int32_trunc: "\<bar>trunc y\<bar> < 2 ^ 31 \<Longrightarrow> to_int32 (Fin y) = trunc y"
  using wrap_small[of "trunc y"] by simp

lemma pow_int:
  assumes "0 \<le> p" "p \<le> 22"
  shows "pow p = Fin (of_int (10 ^ nat p))"
  using pow_nat[OF assms] by simp

subsection \<open>What the parser and the constructor return\<close>

lemma nan_string: "string_to_number (toFixed_string f NaN) = NaN"
  by (simp add: toFixed_string.simps number_ev)

lemma parse_VCur:
  "parse Strict (VCur b) s r = Inl TypeError"
  "parse Sloppy (VCur b) s r = Inr NaN"
  by (simp_all add: parse_def scaled_def this_value_def nan_string)

lemma parse_VNum_Inr: "\<exists>v. parse m (VNum x) s r = Inr v"
  by (simp add: parse_def scaled_def Let_def)

lemma parse_VStr_Inr: "\<exists>v. parse m (VStr x) s r = Inr v"
  by (simp add: parse_def scaled_def Let_def)

lemma Currency_Inr:
  assumes "parse m (VNum x) (assign defaults o') True = Inr v"
  shows "Currency m (VNum x) o' =
     Inr \<lparr> intValue = v, c_value = js_div v (pow (precision (assign defaults o'))),
           c_settings = resolved (assign defaults o') (pow (precision (assign defaults o'))),
           c_precision = pow (precision (assign defaults o')), c_opts = o' \<rparr>"
  using assms by (simp add: Currency_def Let_def)

lemma Currency_VNum:
  "\<exists>c. Currency m (VNum x) o' = Inr c \<and>
       c_settings c = resolved (assign defaults o') (pow (precision (assign defaults o'))) \<and>
       c_precision c = pow (precision (assign defaults o')) \<and>
       parse m (VNum x) (assign defaults o') True = Inr (intValue c)"
proof -
  obtain v where v: "parse m (VNum x) (assign defaults o') True = Inr v"
    using parse_VNum_Inr by blast
  show ?thesis by (simp add: Currency_Inr[OF v] v)
qed

lemma js_NaN:
  "js_add x NaN = NaN" "js_sub x NaN = NaN" "js_mul x NaN = NaN" "js_div x NaN = NaN"
  by (cases x; simp add: js_sub_def)+

lemma Currency_NaN: "map_sum id intValue (Currency m (VNum NaN) o') = Inr NaN"
  by (simp add: Currency_def parse_def scaled_def Let_def nan_string)

text \<open>
  The settings of an object are resolved already, and resolving them again changes
  nothing: an object rebuilt from the settings of another has the same settings.
\<close>

lemma resolved_idem: "resolved (resolved s P) P = resolved s P"
  by (cases "increment s") (simp_all add: resolved_def)

lemma Currency_settings:
  assumes "Currency m v o' = Inr a"
  shows "c_settings a = resolved (assign defaults o') (pow (precision (assign defaults o')))"
    and "c_precision a = pow (precision (assign defaults o'))"
  using assms by (auto simp add: Currency_def Let_def split: sum.splits)

lemma rebuilt_settings:
  assumes a: "Currency m v o' = Inr a" and r: "Currency m' (VNum x) (as_opts (c_settings a)) = Inr r"
  shows "c_settings r = c_settings a"
  using Currency_settings[OF r] Currency_settings[OF a]
  by (simp add: assign_as_opts resolved_idem)

lemma rebuilt:
  assumes a: "Currency m v o' = Inr a"
  shows "\<exists>r. Currency m' (VNum x) (as_opts (c_settings a)) = Inr r \<and> c_settings r = c_settings a"
proof -
  obtain r where r: "Currency m' (VNum x) (as_opts (c_settings a)) = Inr r"
    using Currency_VNum by blast
  show ?thesis using rebuilt_settings[OF a r] r by simp
qed

text \<open>
  A currency object as the operand of \<^verbatim>\<open>add\<close>, \<^verbatim>\<open>subtract\<close> or \<^verbatim>\<open>divide\<close>: line 307
  reads \<^verbatim>\<open>this.value\<close> where the operand's \<^verbatim>\<open>value.value\<close> is meant. The call throws a
  TypeError in strict code; in sloppy code the amount of the result is NaN.
\<close>

lemma currency_operand:
  "add Strict a (VCur b) = Inl TypeError \<and>
   subtract Strict a (VCur b) = Inl TypeError \<and>
   divide Strict a (VCur b) = Inl TypeError \<and>
   map_sum id intValue (add Sloppy a (VCur b)) = Inr NaN \<and>
   map_sum id intValue (subtract Sloppy a (VCur b)) = Inr NaN \<and>
   map_sum id intValue (divide Sloppy a (VCur b)) = Inr NaN"
  by (simp add: add_def subtract_def divide_def parse_VCur Currency_NaN js_NaN)

section \<open>The claims\<close>

subsection \<open>C2: the string \<^verbatim>\<open>"abc"\<close>\<close>

lemma parse_abc:
  "parse m (VStr ''abc'') (assign defaults (no_opts\<lparr>o_errorOnInvalid := f\<rparr>)) True = Inr (Fin 0)"
  by (simp add: parse_def scaled_def assign_def defaults_def no_opts_def strip_def digit_ev number_ev)

text \<open>
  C2 says that \<^verbatim>\<open>Currency("abc", {errorOnInvalid: true})\<close> fails with an invalid-input
  error. It does not: \<^verbatim>\<open>"abc"\<close> is a string, so \<^verbatim>\<open>parse\<close> takes the string branch,
  where every character is stripped, \<^verbatim>\<open>Number("")\<close> is 0, and the flag is never read.
\<close>

theorem C2_abc_is_not_rejected:
  "Currency Strict (VStr ''abc'') (no_opts\<lparr>o_errorOnInvalid := Some True\<rparr>) \<noteq> Inl InvalidInput \<and>
   Currency Sloppy (VStr ''abc'') (no_opts\<lparr>o_errorOnInvalid := Some True\<rparr>) \<noteq> Inl InvalidInput"
  by (simp add: Currency_def parse_abc Let_def)

text \<open>
  C2, amended: constructing a currency value from \<^verbatim>\<open>"abc"\<close> succeeds with
  \<^verbatim>\<open>intValue\<close> equal to 0, whether \<^verbatim>\<open>errorOnInvalid\<close> is enabled, disabled or absent.
\<close>

theorem C2_abc_is_zero:
  "map_sum id intValue (Currency m (VStr ''abc'') (no_opts\<lparr>o_errorOnInvalid := f\<rparr>)) = Inr (Fin 0)"
  by (simp add: Currency_def parse_abc Let_def)

subsection \<open>C1: \<^verbatim>\<open>distribute\<close> conserves the amount\<close>











text \<open>An instance: \<^verbatim>\<open>new Currency(10).distribute(3)\<close> is 3.34, 3.33, 3.33.\<close>

lemma ten_currency:
  "Currency m (VNum (Fin 10)) no_opts =
     Inr \<lparr> intValue = Fin 1000, c_value = Fin 10,
           c_settings = resolved defaults (Fin 100), c_precision = Fin 100, c_opts = no_opts \<rparr>"
  by (simp add: Currency_def parse_VNum digit_ev number_ev)


subsection \<open>C9: Vedic grouping\<close>

lemma fl_hundredth: "fl (1 / 100) = Fin (5764607523034235 / 576460752303423488)"
  by (rule fl_eqI[where e = "- 7" and n = 5764607523034235 and q = "- 59"])
     (simp_all add: power_int_minus)

lemma c9_parse:
  "parse m (VNum (Fin 1234567)) (assign defaults (no_opts\<lparr>o_useVedic := Some True\<rparr>)) True
     = Inr (Fin 123456700)"
  by (simp add: parse_VNum assign_def defaults_def no_opts_def digit_ev number_ev)

lemma c9_div: "fl (711679421588980625309696 / 5764607523034235) = Fin 123456700"
  by (rule fl_eqI[where e = 26 and n = 8285038890188800 and q = "- 26"])
     (simp_all add: power_int_minus)

lemma c9_mul: "fl (177919855397245160031125 / 144115188075855872) = Fin 1234567"
  by (rule fl_eqI[where e = 20 and n = 5302424889720832 and q = "- 32"])
     (simp_all add: power_int_minus)

lemma c9_toString:
  "intValue c = Fin 123456700 \<Longrightarrow> c_precision c = Fin 100 \<Longrightarrow>
   increment (c_settings c) = Some (Fin (5764607523034235 / 576460752303423488)) \<Longrightarrow>
   precision (c_settings c) = 2 \<Longrightarrow> toString c = Inr ''1234567.00''"
  by (simp add: toString_def rounding_def c9_div c9_mul toFixed_def digit_ev)

text \<open>
  C9: \<^verbatim>\<open>new Currency(1234567, {useVedic: true}).format()\<close> is \<^verbatim>\<open>"12,34,567.00"\<close>: the
  rightmost group has three digits, the groups before it two.
\<close>

theorem C9_vedic_format:
  "(case Currency m (VNum (Fin 1234567)) (no_opts\<lparr>o_useVedic := Some True\<rparr>) of
      Inl e \<Rightarrow> Inl e | Inr c \<Rightarrow> format c None) = Inr ''12,34,567.00''"
  apply (simp add: Currency_def c9_parse Let_def)
  apply (simp add: format_def c9_toString resolved_def assign_def defaults_def no_opts_def fl_hundredth)
  apply (simp add: js_ge_def group_here_def is_digit_def)
  done

subsection \<open>C4: the final step of \<^verbatim>\<open>parse\<close>\<close>





lemma pow_0 [simp]: "pow 0 = Fin 1"
  by (simp add: pow_def)


lemma scaled_error: "scaled m x s = Inl e \<Longrightarrow> parse m x s r = Inl e"
  by (simp add: parse_def)



subsection \<open>C10: \<^verbatim>\<open>dollars\<close> and \<^verbatim>\<open>cents\<close>\<close>

lemma fl_half: "fl (1 / 2) = Fin (1 / 2)"
  by (rule fl_representable[where z = 1 and q' = "- 1"]) (simp_all add: power_int_minus)

lemma fl_neg_five_quarters: "fl (- (5 / 4)) = Fin (- (5 / 4))"
  by (rule fl_representable[where z = "- 5" and q' = "- 2"]) (simp_all add: power_int_minus)

lemma pow_10: "pow 10 = Fin 10000000000"
  using pow_nat[of 10] by simp

lemma half_p10:
  "Currency m (VNum (Fin (1 / 2))) (no_opts\<lparr>o_precision := Some 10\<rparr>) =
     Inr \<lparr> intValue = Fin 5000000000, c_value = Fin (1 / 2),
           c_settings = resolved (defaults\<lparr>precision := 10\<rparr>) (Fin 10000000000),
           c_precision = Fin 10000000000, c_opts = no_opts\<lparr>o_precision := Some 10\<rparr> \<rparr>"
  by (simp add: Currency_def parse_VNum assign_def no_opts_def defaults_def pow_10 fl_half
      digit_ev number_ev)

text \<open>
  C10 as stated fails when \<open>10^precision\<close> exceeds \<open>2^31\<close>: with precision 10 the
  value 0.5 has \<^verbatim>\<open>intValue\<close> 5000000000, \<^verbatim>\<open>dollars()\<close> is 0 and \<^verbatim>\<open>cents()\<close> is
  \<open>5000000000 - 2^32 = 705032704\<close>: the 32-bit conversion wraps the remainder.
\<close>

theorem C10_cents_wrap_at_precision_10:
  "dollars_cents Strict (VNum (Fin (1 / 2))) (no_opts\<lparr>o_precision := Some 10\<rparr>)
     = Inr (Fin 5000000000, Fin (1 / 2), 0, 705032704) \<and>
   (0 * 10 ^ 10 + 705032704 :: int) \<noteq> 5000000000"
  by (simp add: dollars_cents_def half_p10 dollars_def cents_def trunc_def)

text \<open>
  C10, amended: for a currency value with a precision \<open>p\<close> between 0 and 9, an integer
  \<^verbatim>\<open>intValue\<close> \<open>k\<close> of magnitude below \<open>2^53\<close>, \<^verbatim>\<open>_precision = 10^p\<close>,
  \<^verbatim>\<open>value = intValue / _precision\<close> and a display value of magnitude below \<open>2^31\<close>,
  \<open>dollars() * 10^p + cents() = k\<close>; both are non-negative when \<open>k\<close> is, and both are
  non-positive when \<open>k\<close> is negative.
\<close>

theorem C10_dollars_cents:
  assumes iv: "intValue c = Fin (of_int k)" and k: "\<bar>k\<bar> < 2 ^ 53"
    and P: "c_precision c = pow p" and p: "0 \<le> p" "p \<le> 9"
    and v: "c_value c = js_div (intValue c) (c_precision c)"
    and d: "c_value c = Fin y" "\<bar>y\<bar> < 2 ^ 31"
  shows "dollars c * 10 ^ nat p + cents c = k \<and>
         (0 \<le> k \<longrightarrow> 0 \<le> dollars c \<and> 0 \<le> cents c) \<and>
         (k < 0 \<longrightarrow> dollars c \<le> 0 \<and> cents c \<le> 0)"
proof -
  define n :: int where "n = 10 ^ nat p"
  have n0: "0 < n" by (simp add: n_def)
  have n9: "n \<le> 10 ^ 9"
  proof -
    have "nat p \<le> 9" using p by simp
    then have "(10::int) ^ nat p \<le> 10 ^ 9" by (intro power_increasing) simp_all
    then show ?thesis by (simp add: n_def)
  qed
  have Pn: "c_precision c = Fin (of_int n)" unfolding P n_def using p by (intro pow_int) simp_all
  define t where "t = share k n"
  define r where "r = k - n * t"
  have nz: "(of_int n :: rat) \<noteq> 0" using n0 by simp
  have yv: "fl (of_int k / of_int n) = Fin y" using v d(1) nz by (simp add: iv Pn)
  have k1: "k < 2 ^ 53" "- (2 ^ 53) < k" using k by simp_all
  have n53: "n \<le> 2 ^ 53" using n9 by simp
  have ty: "trunc y = t"
  proof (cases "0 \<le> k")
    case True
    from fl_div_floor[OF True k1(1) n0 n53] obtain y' where
      "fl (of_int k / of_int n) = Fin y'" "\<lfloor>y'\<rfloor> = k div n" "0 \<le> y'" by auto
    then show ?thesis using yv True by (simp add: trunc_def t_def share_def)
  next
    case False
    then have "k < 0" by simp
    from fl_div_ceil[OF this k1(2) n0 n53] obtain y' where
      y': "fl (of_int k / of_int n) = Fin y'" "\<lceil>y'\<rceil> = - ((- k) div n)" "y' \<le> 0" by auto
    have yy: "y = y'" using yv y'(1) by simp
    show ?thesis
    proof (cases "y' = 0")
      case True
      then have "- ((- k) div n) = 0" using y'(2) by simp
      then show ?thesis using True False by (simp add: yy trunc_def t_def share_def)
    next
      case nz': False
      then show ?thesis using y' False by (simp add: yy trunc_def t_def share_def)
    qed
  qed
  have "\<bar>of_int (trunc y) :: rat\<bar> \<le> \<bar>y\<bar>"
    by (simp add: trunc_def)
  then have "\<bar>(of_int \<bar>trunc y\<bar> :: rat)\<bar> < of_int (2 ^ 31)" using d(2) by simp
  then have tb: "\<bar>trunc y\<bar> < 2 ^ 31" by (simp only: of_int_abs[symmetric] abs_idempotent of_int_less_iff)
  have dol: "dollars c = t" unfolding dollars_def d(1) using to_int32_trunc[OF tb] ty by simp
  have md: "js_mod (intValue c) (c_precision c) = Fin (of_int r)"
    using nz by (simp add: iv Pn trunc_of_int_div[OF n0] r_def t_def)
  have rb: "\<bar>r\<bar> < n"
  proof -
    have "\<bar>k - share k n * n\<bar> < n" using share_remainder[OF n0, of k] n0 by (auto simp: pos_mod_bound)
    then show ?thesis by (simp add: r_def t_def mult.commute)
  qed
  then have "\<bar>trunc (of_int r)\<bar> < 2 ^ 31" using n9 by simp
  then have cen: "cents c = r" unfolding cents_def md using to_int32_trunc[of "of_int r"] by simp
  have sum: "dollars c * 10 ^ nat p + cents c = k" by (simp add: dol cen r_def n_def)
  have pos: "0 \<le> k \<Longrightarrow> 0 \<le> t \<and> 0 \<le> r"
  proof -
    assume k0: "0 \<le> k"
    then have "t = k div n" "r = k mod n"
      by (simp_all add: t_def r_def share_def minus_mult_div_eq_mod)
    then show ?thesis using k0 n0 by (simp add: pos_imp_zdiv_nonneg_iff)
  qed
  have neg: "k < 0 \<Longrightarrow> t \<le> 0 \<and> r \<le> 0"
  proof -
    assume k0: "k < 0"
    then have tt: "t = - ((- k) div n)" by (simp add: t_def share_def)
    have "(- k) - n * ((- k) div n) = (- k) mod n" by (simp add: minus_mult_div_eq_mod)
    then have rr: "r = - ((- k) mod n)" unfolding r_def tt by linarith
    have "0 \<le> (- k) div n" using k0 n0 by (simp add: pos_imp_zdiv_nonneg_iff)
    moreover have "0 \<le> (- k) mod n" using n0 by simp
    ultimately show ?thesis using tt rr by simp
  qed
  show ?thesis using sum pos neg by (simp add: dol cen)
qed

lemma minus_five_quarters:
  "Currency m (VNum (Fin (- (5 / 4)))) no_opts =
     Inr \<lparr> intValue = Fin (- 125), c_value = Fin (- (5 / 4)),
           c_settings = resolved defaults (Fin 100), c_precision = Fin 100, c_opts = no_opts \<rparr>"
  by (simp add: Currency_def parse_VNum fl_neg_five_quarters digit_ev number_ev)

text \<open>An instance: \<open>-1.25\<close> has \<^verbatim>\<open>dollars()\<close> \<open>-1\<close> and \<^verbatim>\<open>cents()\<close> \<open>-25\<close>.\<close>

theorem C10_witness:
  "dollars (projr (Currency Strict (VNum (Fin (- 5 / 4))) no_opts)) * 10 ^ 2
     + cents (projr (Currency Strict (VNum (Fin (- 5 / 4))) no_opts)) = - 125 \<and>
   dollars (projr (Currency Strict (VNum (Fin (- 5 / 4))) no_opts)) \<le> 0 \<and>
   cents (projr (Currency Strict (VNum (Fin (- 5 / 4))) no_opts)) \<le> 0 \<and>
   dollars_cents Strict (VNum (Fin (- 5 / 4))) no_opts = Inr (Fin (- 125), Fin (- (5 / 4)), - 1, - 25)"
proof -
  define c where "c = \<lparr> intValue = Fin (- 125), c_value = Fin (- (5 / 4)),
           c_settings = resolved defaults (Fin 100), c_precision = Fin 100, c_opts = no_opts \<rparr>"
  have "dollars c * 10 ^ nat 2 + cents c = - 125 \<and>
         (0 \<le> (- 125 :: int) \<longrightarrow> 0 \<le> dollars c \<and> 0 \<le> cents c) \<and>
         ((- 125 :: int) < 0 \<longrightarrow> dollars c \<le> 0 \<and> cents c \<le> 0)"
    by (rule C10_dollars_cents[where y = "- (5 / 4)"])
       (simp_all add: c_def fl_neg_five_quarters)
  then have "dollars c * 10 ^ 2 + cents c = - 125 \<and> dollars c \<le> 0 \<and> cents c \<le> 0"
    by simp
  moreover have "dollars_cents Strict (VNum (Fin (- 5 / 4))) no_opts
      = Inr (Fin (- 125), Fin (- (5 / 4)), - 1, - 25)"
    by (simp add: dollars_cents_def minus_five_quarters dollars_def cents_def trunc_def)
  ultimately show ?thesis by (simp add: minus_five_quarters c_def)
qed

subsection \<open>C5: the four operations are closed\<close>

text \<open>
  C5 says that \<^verbatim>\<open>add\<close>, \<^verbatim>\<open>subtract\<close>, \<^verbatim>\<open>multiply\<close> and \<^verbatim>\<open>divide\<close> succeed for
  every operand that is a number, a decimal string or a currency value. \<^verbatim>\<open>multiply\<close>
  converts a currency operand to a number through its \<^verbatim>\<open>toString\<close>, which calls
  \<^verbatim>\<open>toFixed\<close> with the operand's precision:
  \<^verbatim>\<open>new Currency(1).multiply(new Currency(1, {precision: 101}))\<close> raises a RangeError.
\<close>

theorem C5_multiply_by_precision_101:
  "multiply_new Strict (VNum (Fin 1)) no_opts (VNum (Fin 1)) (no_opts\<lparr>o_precision := Some 101\<rparr>)
     = Inl RangeError"
proof -
  obtain a where a: "Currency Strict (VNum (Fin 1)) no_opts = Inr a"
    using Currency_VNum by blast
  obtain b where b: "Currency Strict (VNum (Fin 1)) (no_opts\<lparr>o_precision := Some 101\<rparr>) = Inr b"
    using Currency_VNum by blast
  have "precision (c_settings b) = 101"
    using Currency_settings(1)[OF b] by (simp add: assign_def no_opts_def)
  then show ?thesis
    by (simp add: multiply_new_def a b multiply_def toString_def toFixed_def)
qed

text \<open>
  C5, amended: for every receiver built by the constructor (every currency value is) and
  every operand that is a number or a string, each of \<^verbatim>\<open>add\<close>, \<^verbatim>\<open>subtract\<close>,
  \<^verbatim>\<open>multiply\<close> and \<^verbatim>\<open>divide\<close> succeeds and returns a currency value whose settings equal
  the receiver's settings. \<^verbatim>\<open>multiply\<close> does so for a currency operand as well when the
  operand's precision is between 0 and 100, and raises a RangeError when it is not; the
  settings of the operand are otherwise ignored. (\<^verbatim>\<open>add\<close>, \<^verbatim>\<open>subtract\<close> and \<^verbatim>\<open>divide\<close>
  with a currency operand are the subject of lemma \<open>currency_operand\<close> above.)
\<close>

theorem C5_closed_operations:
  assumes a: "Currency m v o' = Inr a"
  shows "(\<exists>r. add m a (VNum n) = Inr r \<and> c_settings r = c_settings a) \<and>
         (\<exists>r. subtract m a (VNum n) = Inr r \<and> c_settings r = c_settings a) \<and>
         (\<exists>r. multiply m a (VNum n) = Inr r \<and> c_settings r = c_settings a) \<and>
         (\<exists>r. divide m a (VNum n) = Inr r \<and> c_settings r = c_settings a) \<and>
         (\<exists>r. add m a (VStr s) = Inr r \<and> c_settings r = c_settings a) \<and>
         (\<exists>r. subtract m a (VStr s) = Inr r \<and> c_settings r = c_settings a) \<and>
         (\<exists>r. multiply m a (VStr s) = Inr r \<and> c_settings r = c_settings a) \<and>
         (\<exists>r. divide m a (VStr s) = Inr r \<and> c_settings r = c_settings a) \<and>
         (0 \<le> precision (c_settings b) \<and> precision (c_settings b) \<le> 100 \<longrightarrow>
            (\<exists>r. multiply m a (VCur b) = Inr r \<and> c_settings r = c_settings a)) \<and>
         (precision (c_settings b) < 0 \<or> 100 < precision (c_settings b) \<longrightarrow>
            multiply m a (VCur b) = Inl RangeError)"
proof -
  note R = rebuilt[OF a]
  obtain v1 where v1: "parse m (VNum n) (c_settings a) True = Inr v1" using parse_VNum_Inr by blast
  obtain v2 where v2: "parse m (VNum n) (c_settings a) False = Inr v2" using parse_VNum_Inr by blast
  obtain v3 where v3: "parse m (VStr s) (c_settings a) True = Inr v3" using parse_VStr_Inr by blast
  obtain v4 where v4: "parse m (VStr s) (c_settings a) False = Inr v4" using parse_VStr_Inr by blast
  have 1: "\<exists>r. add m a (VNum n) = Inr r \<and> c_settings r = c_settings a"
    unfolding add_def v1 sum.case by (rule R)
  have 2: "\<exists>r. subtract m a (VNum n) = Inr r \<and> c_settings r = c_settings a"
    unfolding subtract_def v1 sum.case by (rule R)
  have 3: "\<exists>r. multiply m a (VNum n) = Inr r \<and> c_settings r = c_settings a"
    unfolding multiply_def to_number.simps sum.case by (rule R)
  have 4: "\<exists>r. divide m a (VNum n) = Inr r \<and> c_settings r = c_settings a"
    unfolding divide_def v2 sum.case by (rule R)
  have 5: "\<exists>r. add m a (VStr s) = Inr r \<and> c_settings r = c_settings a"
    unfolding add_def v3 sum.case by (rule R)
  have 6: "\<exists>r. subtract m a (VStr s) = Inr r \<and> c_settings r = c_settings a"
    unfolding subtract_def v3 sum.case by (rule R)
  have 7: "\<exists>r. multiply m a (VStr s) = Inr r \<and> c_settings r = c_settings a"
    unfolding multiply_def to_number.simps sum.case by (rule R)
  have 8: "\<exists>r. divide m a (VStr s) = Inr r \<and> c_settings r = c_settings a"
    unfolding divide_def v4 sum.case by (rule R)
  have 9: "\<exists>r. multiply m a (VCur b) = Inr r \<and> c_settings r = c_settings a"
    if "0 \<le> precision (c_settings b) \<and> precision (c_settings b) \<le> 100"
  proof -
    have "\<not> (precision (c_settings b) < 0 \<or> 100 < precision (c_settings b))"
      using that by linarith
    then obtain t where t: "toString b = Inr t" by (simp add: toString_def toFixed_def)
    show ?thesis unfolding multiply_def to_number.simps t sum.case by (rule R)
  qed
  have 10: "multiply m a (VCur b) = Inl RangeError"
    if "precision (c_settings b) < 0 \<or> 100 < precision (c_settings b)"
    using that by (auto simp add: multiply_def toString_def toFixed_def)
  from 1 2 3 4 5 6 7 8 9 10 show ?thesis by blast
qed

text \<open>
  An instance: the receiver is \<^verbatim>\<open>new Currency(10)\<close>; \<^verbatim>\<open>add("1.50")\<close> and
  \<^verbatim>\<open>multiply\<close> by the receiver itself return values with the default settings.
\<close>

theorem C5_witness:
  "(\<exists>r. add Strict \<lparr> intValue = Fin 1000, c_value = Fin 10,
            c_settings = resolved defaults (Fin 100), c_precision = Fin 100, c_opts = no_opts \<rparr>
          (VStr ''1.50'') = Inr r \<and> c_settings r = resolved defaults (Fin 100)) \<and>
   (\<exists>r. multiply Strict \<lparr> intValue = Fin 1000, c_value = Fin 10,
            c_settings = resolved defaults (Fin 100), c_precision = Fin 100, c_opts = no_opts \<rparr>
          (VCur \<lparr> intValue = Fin 1000, c_value = Fin 10,
            c_settings = resolved defaults (Fin 100), c_precision = Fin 100, c_opts = no_opts \<rparr>)
          = Inr r \<and> c_settings r = resolved defaults (Fin 100))"
  using C5_closed_operations[OF ten_currency, of Strict "Fin 1" "''1.50''"
    "\<lparr> intValue = Fin 1000, c_value = Fin 10,
            c_settings = resolved defaults (Fin 100), c_precision = Fin 100, c_opts = no_opts \<rparr>"]
  by (simp add: resolved_def defaults_def)

subsection \<open>C7: adding three currency values\<close>

text \<open>
  C7: for currency values \<open>a\<close>, \<open>b\<close>, \<open>c\<close>, the amount of \<^verbatim>\<open>(a.add(b)).add(c)\<close> is the
  sum of the three amounts. The source does not compute it: \<^verbatim>\<open>parse\<close> is handed the
  operand \<open>b\<close>, a currency object, and line 307 multiplies \<^verbatim>\<open>this.value\<close> where
  \<^verbatim>\<open>value.value\<close> is meant. For all \<open>a\<close>, \<open>b\<close>, \<open>c\<close> the expression throws a TypeError in
  strict code, and has the amount NaN in sloppy code.
\<close>

theorem C7_sum_of_three:
  "sum_of_three Strict a b c = Inl TypeError \<and> sum_of_three Sloppy a b c = Inr NaN"
proof -
  obtain ab where ab: "add Sloppy a (VCur b) = Inr ab"
    unfolding add_def parse_VCur sum.case using Currency_VNum by blast
  show ?thesis
    by (simp add: sum_of_three_def ab) (simp add: add_def parse_VCur Currency_NaN js_NaN)
qed

end
